theory Spec2Isabelle
  imports Complex_Main "HOL-Library.Char_ord" "HOL-Library.List_Lexorder"
begin

section \<open>Label codec of the OCR demo (src/open/demo/learn/main.py)\<close>

text \<open>
  Python strings are modelled as \<open>string\<close>; the repository restricts label alphabets
  to single-byte characters. A vocabulary is a Python list of strings: every character
  of a label enters it as a one-character string, the padding token as the
  five-character string \<open><pad>\<close>. Python compares strings lexicographically by code
  point, which is the order of \<open>Char_ord\<close> and \<open>List_Lexorder\<close>.
\<close>

datatype error =
  KeyError | ValueError | IndexError | TypeError
  | EmptyTrainSet | ModelInvalidVocab

definition PAD_TOKEN :: string where
  "PAD_TOKEN = ''<pad>''"

text \<open>
  \<^verbatim>\<open>chars = sorted({ch for label in labels for ch in label})\<close>,
  then \<^verbatim>\<open>if PAD_TOKEN not in chars: chars.append(PAD_TOKEN)\<close>.
\<close>

definition label_chars :: "string list \<Rightarrow> string set" where
  "label_chars labels = set (concat (map (map (\<lambda>ch. [ch])) labels))"

definition build_vocab :: "string list \<Rightarrow> string list" where
  "build_vocab labels =
     (let chars = sorted_list_of_set (label_chars labels)
      in if PAD_TOKEN \<notin> set chars then chars @ [PAD_TOKEN] else chars)"

text \<open>
  \<^verbatim>\<open>tok_to_idx = {t: i for i, t in enumerate(vocab)}\<close>: a later occurrence of a
  token overwrites the index of an earlier one.
\<close>

definition tok_to_idx :: "string list \<Rightarrow> (string \<rightharpoonup> nat)" where
  "tok_to_idx vocab = fold (\<lambda>(i, t) m. m(t \<mapsto> i)) (enumerate 0 vocab) Map.empty"

text \<open>
  One row of \<^verbatim>\<open>_encode_labels\<close>: the row starts as \<open>max_len\<close> copies of the
  padding index and the inner loop overwrites position \<open>j\<close> for every character of
  \<^verbatim>\<open>label[:max_len]\<close>; an unknown character gets the padding index.
\<close>

definition encode_row :: "(string \<rightharpoonup> nat) \<Rightarrow> nat \<Rightarrow> nat \<Rightarrow> string \<Rightarrow> nat list" where
  "encode_row t2i pad_idx max_len label =
     fold (\<lambda>(j, ch) row. row[j := (case t2i [ch] of Some i \<Rightarrow> i | None \<Rightarrow> pad_idx)])
          (enumerate 0 (take max_len label))
          (replicate max_len pad_idx)"

text \<open>
  \<^verbatim>\<open>_encode_labels\<close>: \<^verbatim>\<open>tok_to_idx[PAD_TOKEN]\<close> raises KeyError when the
  vocabulary has no padding token, \<^verbatim>\<open>np.full\<close> raises ValueError on a negative
  dimension.
\<close>

definition encode_labels :: "string list \<Rightarrow> string list \<Rightarrow> int \<Rightarrow> error + nat list list" where
  "encode_labels labels vocab max_len =
     (case tok_to_idx vocab PAD_TOKEN of
        None \<Rightarrow> Inl KeyError
      | Some pad_idx \<Rightarrow>
          if max_len < 0 then Inl ValueError
          else Inr (map (encode_row (tok_to_idx vocab) pad_idx (nat max_len)) labels))"

text \<open>
  The decoding tail of \<^verbatim>\<open>_predict_text\<close>:
  \<^verbatim>\<open>while tokens and tokens[-1] == pad_token: tokens.pop(); confs.pop()\<close>.
  Both lists are popped together.
\<close>

function pop_padding :: "string \<Rightarrow> string list \<times> 'c list \<Rightarrow> string list \<times> 'c list" where
  "pop_padding pad_token (tokens, confs) =
     (if tokens \<noteq> [] \<and> last tokens = pad_token
      then pop_padding pad_token (butlast tokens, butlast confs)
      else (tokens, confs))"
  by pat_completeness auto
termination
  by (relation "measure (\<lambda>(p, ts, cs). length ts)") auto

declare pop_padding.simps [simp del]

text \<open>
  Decoding a row of indices as \<^verbatim>\<open>_predict_text\<close> does: \<^verbatim>\<open>vocab[idx]\<close> for
  every index (IndexError out of range), the popping loop, then \<^verbatim>\<open>"".join(tokens)\<close>.
  The confidences play no part in the text; they are carried as units here.
\<close>

definition lookup_tokens :: "string list \<Rightarrow> nat list \<Rightarrow> error + string list" where
  "lookup_tokens vocab idxs =
     (if list_all (\<lambda>i. i < length vocab) idxs then Inr (map (\<lambda>i. vocab ! i) idxs)
      else Inl IndexError)"

definition decode :: "nat list \<Rightarrow> string list \<Rightarrow> string \<Rightarrow> error + string" where
  "decode idxs vocab pad_token =
     (case lookup_tokens vocab idxs of
        Inl e \<Rightarrow> Inl e
      | Inr tokens \<Rightarrow> Inr (concat (fst (pop_padding pad_token (tokens, map (\<lambda>_. ()) tokens)))))"

section \<open>Numerical kernel\<close>

text \<open>
  The tensors of the program are numpy arrays of floating-point numbers. They are
  modelled as lists of real numbers: a vector is a list, a matrix the list of its rows,
  the per-position head weights a list of matrices. Arithmetic is exact. The numpy
  expressions are written for arrays of compatible shapes, as the program builds them;
  the well-formedness predicates below state these shapes.
\<close>

type_synonym vec = "real list"
type_synonym mat = "real list list"

definition dot :: "vec \<Rightarrow> vec \<Rightarrow> real" where
  "dot u v = sum_list (map2 (*) u v)"

text \<open>\<^verbatim>\<open>x @ w.T\<close>: entry \<open>(i, j)\<close> is the product of row \<open>i\<close> of \<open>x\<close> and row \<open>j\<close> of \<open>w\<close>.\<close>

definition matmul_T :: "mat \<Rightarrow> mat \<Rightarrow> mat" where
  "matmul_T x w = map (\<lambda>r. map (dot r) w) x"

text \<open>\<^verbatim>\<open>z + b\<close> with the vector \<open>b\<close> broadcast over the rows of \<open>z\<close>.\<close>

definition add_bias :: "mat \<Rightarrow> vec \<Rightarrow> mat" where
  "add_bias z b = map (\<lambda>r. map2 (+) r b) z"

text \<open>\<^verbatim>\<open>_relu\<close>: \<^verbatim>\<open>np.maximum(x, 0.0)\<close>.\<close>

definition relu :: "mat \<Rightarrow> mat" where
  "relu x = map (map (\<lambda>v. max v 0)) x"

fun row_max :: "vec \<Rightarrow> real" where
  "row_max [] = 0"
| "row_max (v # vs) = fold max vs v"

text \<open>
  \<^verbatim>\<open>_softmax\<close>, row by row (every reduction is along \<^verbatim>\<open>axis=1\<close>):
  \<^verbatim>\<open>z = logits - logits.max(axis=1, keepdims=True); exp = np.exp(z);
  exp / exp.sum(axis=1, keepdims=True)\<close>.
\<close>

definition softmax_row :: "vec \<Rightarrow> vec" where
  "softmax_row r =
     (let z = map (\<lambda>v. v - row_max r) r;
          e = map exp z
      in map (\<lambda>v. v / sum_list e) e)"

definition softmax :: "mat \<Rightarrow> mat" where
  "softmax logits = map softmax_row logits"



text \<open>The hidden layer: \<^verbatim>\<open>z1 = x @ w1.T + b1\<close> and \<^verbatim>\<open>h = _relu(z1)\<close>.\<close>

definition pre_activation :: "mat \<Rightarrow> mat \<Rightarrow> vec \<Rightarrow> mat" where
  "pre_activation x w b = add_bias (matmul_T x w) b"

text \<open>One head: \<^verbatim>\<open>logits = h @ w2[pos].T + b2[pos]; probs = _softmax(logits)\<close>.\<close>

definition head_probs :: "mat \<Rightarrow> mat \<Rightarrow> vec \<Rightarrow> mat" where
  "head_probs h w b = softmax (add_bias (matmul_T h w) b)"

section \<open>Trained model and predictor\<close>

text \<open>
  The model's config is a Python dict of JSON values. \<^verbatim>\<open>TrainedModel\<close> holds it with
  the four parameter tensors.
\<close>

datatype json =
  JNull | JBool bool | JInt int | JFloat real | JStr string
  | JList "json list" | JDict "(string \<times> json) list"

record params =
  w1 :: mat
  b1 :: vec
  w2 :: "mat list"
  b2 :: mat

record trained_model = params +
  config :: "string \<rightharpoonup> json"



text \<open>\<^verbatim>\<open>x = (x - float(mean)) / max(1e-6, float(std))\<close>.\<close>

definition normalize_features :: "mat \<Rightarrow> real \<Rightarrow> real \<Rightarrow> mat" where
  "normalize_features x mean std = map (map (\<lambda>v. (v - mean) / max (1 / 1000000) std)) x"






text \<open>
  The shapes of a model and a feature tensor as the trainer and the feature extractor
  build them: \<open>x\<close> has at least one row and \<open>d\<close> columns, the hidden layer is
  \<open>hid \<times> d\<close>, and every position has a head of shape \<open>v \<times> hid\<close> with \<open>v\<close> biases,
  \<open>v\<close> positive.
\<close>

definition predictor_shapes :: "trained_model \<Rightarrow> mat \<Rightarrow> nat \<Rightarrow> nat \<Rightarrow> nat \<Rightarrow> bool" where
  "predictor_shapes model x d hid v \<longleftrightarrow>
     x \<noteq> [] \<and> list_all (\<lambda>r. length r = d) x
     \<and> length (w1 model) = hid \<and> list_all (\<lambda>r. length r = d) (w1 model)
     \<and> length (b1 model) = hid
     \<and> length (b2 model) = length (w2 model)
     \<and> list_all (\<lambda>w. length w = v \<and> list_all (\<lambda>r. length r = hid) w) (w2 model)
     \<and> list_all (\<lambda>b. length b = v) (b2 model)
     \<and> 0 < v"

text \<open>
  The probabilities that the head of position \<open>pos\<close> gives for the first feature row,
  after normalisation and the hidden layer: \<^verbatim>\<open>probs[0]\<close> of that position.
\<close>

definition position_probs :: "trained_model \<Rightarrow> mat \<Rightarrow> real \<Rightarrow> real \<Rightarrow> nat \<Rightarrow> vec" where
  "position_probs model x mean std pos =
     hd (head_probs
           (relu (pre_activation (normalize_features x mean std) (w1 model) (b1 model)))
           (w2 model ! pos) (b2 model ! pos))"

section \<open>Properties\<close>

subsection \<open>Vocabulary\<close>

lemma PAD_not_char: "PAD_TOKEN \<notin> label_chars labels"
  by (auto simp: PAD_TOKEN_def label_chars_def)

lemma build_vocab_eq:
  "build_vocab labels = sorted_list_of_set (label_chars labels) @ [PAD_TOKEN]"
  using PAD_not_char [of labels]
  by (simp add: build_vocab_def Let_def label_chars_def)

lemma finite_label_chars: "finite (label_chars labels)"
  by (simp add: label_chars_def)

subsection \<open>Encoding and decoding\<close>

lemma fold_update_enumerate:
  "k + length xs \<le> length row \<Longrightarrow>
   fold (\<lambda>(j, ch) r. r[j := f ch]) (enumerate k xs) row
     = take k row @ map f xs @ drop (k + length xs) row"
proof (induction xs arbitrary: k row)
  case Nil
  then show ?case by simp
next
  case (Cons x xs)
  have len: "Suc k + length xs \<le> length (row[k := f x])"
    using Cons.prems by simp
  have k: "k < length row" using Cons.prems by simp
  have "fold (\<lambda>(j, ch) r. r[j := f ch]) (enumerate k (x # xs)) row
        = fold (\<lambda>(j, ch) r. r[j := f ch]) (enumerate (Suc k) xs) (row[k := f x])"
    by simp
  also have "\<dots> = take (Suc k) (row[k := f x]) @ map f xs @ drop (Suc k + length xs) (row[k := f x])"
    by (rule Cons.IH [OF len])
  also have "take (Suc k) (row[k := f x]) = take k row @ [f x]"
    using k by (simp add: take_Suc_conv_app_nth)
  also have "drop (Suc k + length xs) (row[k := f x]) = drop (k + length (x # xs)) row"
    by simp
  finally show ?case by simp
qed

lemma encode_row_eq:
  "encode_row t2i p n label
     = map (\<lambda>ch. case t2i [ch] of Some i \<Rightarrow> i | None \<Rightarrow> p) (take n label)
       @ replicate (n - length label) p"
proof -
  have "0 + length (take n label) \<le> length (replicate n p)" by simp
  from fold_update_enumerate [OF this, of "\<lambda>ch. case t2i [ch] of Some i \<Rightarrow> i | None \<Rightarrow> p"]
  show ?thesis by (simp add: encode_row_def min_def)
qed

lemma fold_upd_inv:
  "\<forall>(i, t) \<in> set ps. i < length vocab \<and> vocab ! i = t \<Longrightarrow>
   \<forall>t i. m t = Some i \<longrightarrow> i < length vocab \<and> vocab ! i = t \<Longrightarrow>
   fold (\<lambda>(i, t) m. m(t \<mapsto> i)) ps m t = Some i \<Longrightarrow> i < length vocab \<and> vocab ! i = t"
proof (induction ps arbitrary: m)
  case Nil
  then show ?case by simp
next
  case (Cons p ps)
  obtain j s where p: "p = (j, s)" by (cases p)
  have inv: "\<forall>t i. (m(s \<mapsto> j)) t = Some i \<longrightarrow> i < length vocab \<and> vocab ! i = t"
    using Cons.prems(1,2) p by auto
  have rest: "\<forall>(i, t) \<in> set ps. i < length vocab \<and> vocab ! i = t"
    using Cons.prems(1) by simp
  have run: "fold (\<lambda>(i, t) m. m(t \<mapsto> i)) ps (m(s \<mapsto> j)) t = Some i"
    using Cons.prems(3) p by (simp del: fun_upd_apply)
  show ?case
    by (rule Cons.IH [OF rest inv run])
qed

lemma fold_upd_dom:
  "dom (fold (\<lambda>(i, t) m. m(t \<mapsto> i)) ps m) = dom m \<union> snd ` set ps"
proof (induction ps arbitrary: m)
  case Nil
  then show ?case by simp
next
  case (Cons p ps)
  obtain j s where p: "p = (j, s)" by (cases p)
  show ?case unfolding p by (simp add: Cons.IH del: fun_upd_apply)
qed

lemma tok_to_idx_sound:
  "tok_to_idx vocab t = Some i \<Longrightarrow> i < length vocab \<and> vocab ! i = t"
proof -
  assume a: "tok_to_idx vocab t = Some i"
  have ps: "\<forall>(i, t) \<in> set (enumerate 0 vocab). i < length vocab \<and> vocab ! i = t"
    by (auto simp: in_set_enumerate_eq)
  have m: "\<forall>t i. (Map.empty :: string \<rightharpoonup> nat) t = Some i \<longrightarrow> i < length vocab \<and> vocab ! i = t"
    by simp
  show ?thesis
    by (rule fold_upd_inv [OF ps m]) (use a in \<open>simp add: tok_to_idx_def\<close>)
qed

lemma tok_to_idx_dom: "dom (tok_to_idx vocab) = set vocab"
proof -
  have "snd ` set (enumerate 0 vocab) = set vocab"
    by (metis map_snd_enumerate set_map)
  then show ?thesis by (simp add: tok_to_idx_def fold_upd_dom)
qed

lemma tok_to_idx_complete:
  "t \<in> set vocab \<Longrightarrow> \<exists>i. tok_to_idx vocab t = Some i \<and> i < length vocab \<and> vocab ! i = t"
proof -
  assume "t \<in> set vocab"
  then have "t \<in> dom (tok_to_idx vocab)" by (simp add: tok_to_idx_dom)
  then obtain i where i: "tok_to_idx vocab t = Some i" by blast
  with tok_to_idx_sound [OF i] show ?thesis by blast
qed

lemma pop_padding_stop:
  "tokens = [] \<or> last tokens \<noteq> pad \<Longrightarrow> pop_padding pad (tokens, confs) = (tokens, confs)"
  by (subst pop_padding.simps) auto

lemma pop_padding_step:
  "pop_padding pad (tokens @ [pad], confs) = pop_padding pad (tokens, butlast confs)"
  by (subst pop_padding.simps) simp

lemma pop_padding_replicate:
  "ts = [] \<or> last ts \<noteq> pad \<Longrightarrow>
   pop_padding pad (ts @ replicate k pad, cs) = (ts, take (length cs - k) cs)"
proof (induction k arbitrary: cs)
  case 0
  then show ?case by (simp add: pop_padding_stop)
next
  case (Suc k)
  have "ts @ replicate (Suc k) pad = (ts @ replicate k pad) @ [pad]"
    by (simp add: replicate_append_same)
  then have "pop_padding pad (ts @ replicate (Suc k) pad, cs)
        = pop_padding pad (ts @ replicate k pad, butlast cs)"
    by (simp only: pop_padding_step)
  also have "\<dots> = (ts, take (length (butlast cs) - k) (butlast cs))"
    by (rule Suc.IH [OF Suc.prems])
  also have "take (length (butlast cs) - k) (butlast cs) = take (length cs - Suc k) cs"
    by (simp add: butlast_conv_take)
  finally show ?case .
qed

subsection \<open>Claims about the label codec\<close>

text \<open>
  C3, as stated: for every list of labels the vocabulary contains each character of the
  labels exactly once, is sorted ascending, and contains the padding token exactly once.
  The statement fails where a label holds a character above \<open><\<close>: the padding token is
  appended after the sorted characters, so for the single label \<open>A\<close> the vocabulary is
  \<open>A\<close>, \<open><pad>\<close>, which is not ascending.
\<close>

theorem build_vocab_sorted_counterexample:
  "build_vocab [''A''] = [''A'', ''<pad>''] \<and> \<not> sorted (build_vocab [''A''])"
  by (simp add: build_vocab_eq label_chars_def PAD_TOKEN_def)

text \<open>
  C3, amended: for every list of labels the vocabulary consists of exactly the characters
  occurring in the labels and the padding token, each exactly once (also when the labels
  spell out the padding token); the characters come first in ascending order and the
  padding token is the last element.
\<close>

theorem build_vocab_characters_then_pad:
  "set (build_vocab labels) = label_chars labels \<union> {PAD_TOKEN}
   \<and> distinct (build_vocab labels)
   \<and> sorted (butlast (build_vocab labels))
   \<and> last (build_vocab labels) = PAD_TOKEN"
  using PAD_not_char [of labels] finite_label_chars [of labels]
  by (simp add: build_vocab_eq)

text \<open>
  C2: for a vocabulary (a list holding the padding token, as every vocabulary that
  \<open>build_vocab\<close> returns does) and every label of length at most \<open>max_len\<close> whose
  characters all occur in it, encoding succeeds with a row of \<open>max_len\<close> indices, and
  decoding that row (looking the indices up, popping the trailing run of the padding
  token, joining) gives the label back.
\<close>

theorem codec_roundtrip:
  assumes pad: "PAD_TOKEN \<in> set vocab"
    and len: "int (length label) \<le> max_len"
    and chars: "\<forall>ch \<in> set label. [ch] \<in> set vocab"
  shows "\<exists>row. encode_labels [label] vocab max_len = Inr [row]
           \<and> length row = nat max_len
           \<and> decode row vocab PAD_TOKEN = Inr label"
proof -
  obtain pad_idx where pi: "tok_to_idx vocab PAD_TOKEN = Some pad_idx"
    and pil: "pad_idx < length vocab" and piv: "vocab ! pad_idx = PAD_TOKEN"
    using tok_to_idx_complete [OF pad] by blast
  define n where "n = nat max_len"
  define f where "f = (\<lambda>ch. case tok_to_idx vocab [ch] of Some i \<Rightarrow> i | None \<Rightarrow> pad_idx)"
  define row where "row = encode_row (tok_to_idx vocab) pad_idx n label"
  have nlen: "length label \<le> n" and nonneg: "\<not> max_len < 0"
    using len by (simp_all add: n_def)
  have row_eq: "row = map f label @ replicate (n - length label) pad_idx"
    using nlen by (simp add: row_def encode_row_eq f_def)
  have f_ok: "f ch < length vocab \<and> vocab ! f ch = [ch]" if "ch \<in> set label" for ch
  proof -
    from that chars have "[ch] \<in> set vocab" by blast
    from tok_to_idx_complete [OF this] show ?thesis by (auto simp: f_def)
  qed
  have enc: "encode_labels [label] vocab max_len = Inr [row]"
    using pi nonneg by (simp add: encode_labels_def row_def n_def)
  have rlen: "length row = nat max_len"
    using nlen by (simp add: row_eq n_def)
  have inrange: "list_all (\<lambda>i. i < length vocab) row"
    using f_ok pil by (auto simp: row_eq list_all_iff)
  have toks: "map (\<lambda>i. vocab ! i) row
                = map (\<lambda>ch. [ch]) label @ replicate (n - length label) PAD_TOKEN"
    using f_ok piv by (simp add: row_eq)
  have nopad: "map (\<lambda>ch. [ch]) label = [] \<or> last (map (\<lambda>ch. [ch]) label) \<noteq> PAD_TOKEN"
    by (cases "label = []") (simp_all add: last_map PAD_TOKEN_def)
  have fstpop: "fst (pop_padding PAD_TOKEN
        (map (\<lambda>ch. [ch]) label @ replicate (n - length label) PAD_TOKEN, cs))
        = map (\<lambda>ch. [ch]) label" for cs :: "unit list"
    by (simp add: pop_padding_replicate [OF nopad])
  have "decode row vocab PAD_TOKEN = Inr (concat (map (\<lambda>ch. [ch]) label))"
    using inrange toks by (simp add: decode_def lookup_tokens_def fstpop)
  also have "concat (map (\<lambda>ch. [ch]) label) = label"
    by (induction label) simp_all
  finally have "decode row vocab PAD_TOKEN = Inr label" .
  with enc rlen show ?thesis by blast
qed

theorem codec_roundtrip_witness:
  "PAD_TOKEN \<in> set [''0'', ''1'', ''<pad>'']
   \<and> int (length ''01'') \<le> 4
   \<and> list_all (\<lambda>ch. [ch] \<in> set [''0'', ''1'', ''<pad>'']) ''01''
   \<and> encode_labels [''01''] [''0'', ''1'', ''<pad>''] 4 = Inr [[0, 1, 2, 2]]
   \<and> decode [0, 1, 2, 2] [''0'', ''1'', ''<pad>''] PAD_TOKEN = Inr ''01''"
proof -
  have h1: "PAD_TOKEN \<in> set [''0'', ''1'', ''<pad>'']" by (simp add: PAD_TOKEN_def)
  have h2: "int (length ''01'') \<le> 4" by simp
  have h3: "\<forall>ch \<in> set ''01''. [ch] \<in> set [''0'', ''1'', ''<pad>'']" by simp
  have e: "encode_labels [''01''] [''0'', ''1'', ''<pad>''] 4 = Inr [[0, 1, 2, 2]]"
    by (simp add: encode_labels_def tok_to_idx_def encode_row_def PAD_TOKEN_def
        eval_nat_numeral)
  from codec_roundtrip [OF h1 h2 h3] e h1 h2 show ?thesis by auto
qed

subsection \<open>The predictor reads one row\<close>







end
